theory Spec2Isabelle
  imports Complex_Main "HOL-Library.Log_Nat"
begin

section \<open>Finitude: occurrence calculation and card rotation\<close>

text \<open>
  A shallow embedding of the calculation utilities (\<^verbatim>\<open>calculateRemainingOccurrences\<close>,
  \<^verbatim>\<open>convertFrequencyToYearly\<close>, \<^verbatim>\<open>getCurrentAge\<close>, \<^verbatim>\<open>getYearsRemaining\<close>,
  \<^verbatim>\<open>calculateTotalOccurrences\<close>, \<^verbatim>\<open>calculateCompletionPercentage\<close>), of their
  namesakes in \<^verbatim>\<open>utils/dataLoader.js\<close>, and of the card state of \<^verbatim>\<open>Finitude.js\<close>.

  Conventions of the embedding:
  \<^item> a JavaScript number is an IEEE double. The type \<open>double\<close> holds the finite ones, as
    the rationals that rounding to a 53-bit significand (to nearest, ties to even) leaves
    unchanged, and every arithmetic operation rounds its exact result. The exponent is not
    bounded, so overflow to an infinity and the subnormal numbers are outside the model, and
    there is one zero. \<open>jsnum\<close> adds \<^verbatim>\<open>NaN\<close>. The calendar fields are \<open>int\<close>;
  \<^item> a property that the source reads through \<^verbatim>\<open>x || d\<close> may be absent: it is an
    \<open>option\<close>, and \<open>js_or\<close> is the operator \<^verbatim>\<open>||\<close> on it (absent and \<open>0\<close> are falsy);
  \<^item> \<^verbatim>\<open>new Date()\<close> is an explicit argument \<open>now\<close>;
  \<^item> \<^verbatim>\<open>multipliers[frequency.period]\<close> is a property lookup on an object literal: it finds
    the four keys of the literal, then the names every object inherits from
    \<^verbatim>\<open>Object.prototype\<close>, and is \<^verbatim>\<open>undefined\<close> otherwise.
\<close>

section \<open>JavaScript numbers\<close>

subsection \<open>Rounding to double precision\<close>

text \<open>
  \<open>expo x\<close> is the binary exponent of \<open>x \<noteq> 0\<close>: \<open>2 powi expo x \<le> \<bar>x\<bar> < 2 powi (expo x + 1)\<close>.
  \<open>rne\<close> rounds to the nearest integer, a tie to the even one. \<open>fl x\<close> is the double
  nearest to \<open>x\<close>: the multiple of \<open>ulp x\<close> whose factor is \<open>x / ulp x\<close> rounded by \<open>rne\<close>.
\<close>

definition expo :: "rat \<Rightarrow> int" where
  "expo x = (if 1 \<le> \<bar>x\<bar> then bitlen \<lfloor>\<bar>x\<bar>\<rfloor> - 1 else - bitlen (\<lceil>1 / \<bar>x\<bar>\<rceil> - 1))"

definition rne :: "rat \<Rightarrow> int" where
  "rne m =
     (let f = \<lfloor>m\<rfloor>; d = m - of_int f
      in if d < 1 / 2 then f
         else if 1 / 2 < d then f + 1
         else if even f then f else f + 1)"

definition fl :: "rat \<Rightarrow> rat" where
  "fl x = of_int (rne (x / 2 powi (expo x - 52))) * 2 powi (expo x - 52)"

definition ulp :: "rat \<Rightarrow> rat" where
  "ulp x = 2 powi (expo x - 52)"

lemma bitlen_powi:
  assumes "0 < (p::int)"
  shows "(2::rat) powi (bitlen p - 1) \<le> of_int p" "of_int p < (2::rat) powi (bitlen p)"
proof -
  have b: "1 \<le> bitlen p" using assms by (auto simp: bitlen_alt_def)
  from bitlen_bounds[OF assms] have "2 ^ nat (bitlen p - 1) \<le> p" "p < 2 ^ nat (bitlen p)" by auto
  then have "(of_int (2 ^ nat (bitlen p - 1)) :: rat) \<le> of_int p" "(of_int p :: rat) < of_int (2 ^ nat (bitlen p))"
    by (simp_all only: of_int_le_iff of_int_less_iff)
  then show "(2::rat) powi (bitlen p - 1) \<le> of_int p" "of_int p < (2::rat) powi (bitlen p)"
    using b by (simp_all add: power_int_def)
qed

lemma expo_bounds:
  assumes "x \<noteq> 0"
  shows "2 powi (expo x) \<le> \<bar>x\<bar>" "\<bar>x\<bar> < 2 powi (expo x + 1)"
proof -
  define a where "a = \<bar>x\<bar>"
  have apos: "0 < a" using assms by (simp add: a_def)
  have "2 powi (expo x) \<le> a \<and> a < 2 powi (expo x + 1)"
  proof (cases "1 \<le> a")
    case True
    define n where "n = \<lfloor>a\<rfloor>"
    have npos: "0 < n" using True by (simp add: n_def)
    have e: "expo x = bitlen n - 1" using True by (simp add: expo_def a_def n_def)
    have "2 powi (bitlen n - 1) \<le> (of_int n :: rat)" using bitlen_powi(1)[OF npos] .
    also have "\<dots> \<le> a" by (simp add: n_def)
    finally have lo: "2 powi (expo x) \<le> a" by (simp add: e)
    have "n < 2 ^ nat (bitlen n)" using bitlen_bounds[OF npos] by simp
    then have "n + 1 \<le> 2 ^ nat (bitlen n)" by simp
    then have "(of_int (n + 1) :: rat) \<le> of_int (2 ^ nat (bitlen n))" by (simp only: of_int_le_iff)
    moreover have "0 \<le> bitlen n" by (rule bitlen_nonneg)
    ultimately have "(of_int n + 1 :: rat) \<le> 2 powi (bitlen n)" by (simp add: power_int_def)
    moreover have "a < of_int n + 1" unfolding n_def by linarith
    ultimately have "a < 2 powi (expo x + 1)" by (simp add: e)
    with lo show ?thesis by simp
  next
    case False
    define b where "b = 1 / a"
    have b1: "1 < b" using False apos by (simp add: b_def)
    define m where "m = \<lceil>b\<rceil> - 1"
    have mpos: "0 < m" using b1 unfolding m_def by linarith
    have e: "expo x = - bitlen m" using False by (simp add: expo_def a_def m_def b_def)
    have mb: "of_int m < b" "b \<le> of_int m + 1"
      unfolding m_def by linarith+
    have k1: "1 \<le> bitlen m" using mpos by (auto simp: bitlen_alt_def)
    have "2 powi (bitlen m - 1) \<le> (of_int m :: rat)" using bitlen_powi(1)[OF mpos] .
    then have lo: "2 powi (bitlen m - 1) < b" using mb(1) by simp
    have "m < 2 ^ nat (bitlen m)" using bitlen_bounds[OF mpos] by simp
    then have "m + 1 \<le> 2 ^ nat (bitlen m)" by simp
    then have "(of_int (m + 1) :: rat) \<le> of_int (2 ^ nat (bitlen m))" by (simp only: of_int_le_iff)
    then have "(of_int m + 1 :: rat) \<le> 2 powi (bitlen m)" using k1 by (simp add: power_int_def)
    then have hi: "b \<le> 2 powi (bitlen m)" using mb(2) by simp
    have a_eq: "a = 1 / b" using apos by (simp add: b_def)
    have p1: "(0::rat) < 2 powi (bitlen m)" "(0::rat) < 2 powi (bitlen m - 1)" by simp_all
    have "1 / 2 powi (bitlen m) \<le> 1 / b" using hi b1 by (intro divide_left_mono) simp_all
    then have A: "2 powi (- bitlen m) \<le> a" by (simp add: a_eq power_int_minus_divide)
    have "1 / b < 1 / 2 powi (bitlen m - 1)" using lo p1 b1 by (intro divide_strict_left_mono) simp_all
    then have "a < 2 powi (- (bitlen m - 1))" by (simp only: a_eq power_int_minus_divide)
    then have B: "a < 2 powi (- bitlen m + 1)" by simp
    from A B show ?thesis by (simp add: e)
  qed
  then show "2 powi (expo x) \<le> \<bar>x\<bar>" "\<bar>x\<bar> < 2 powi (expo x + 1)" by (simp_all add: a_def)
qed

lemma pow2_less_cancel: "(2::rat) powi m < 2 powi n \<Longrightarrow> m < n"
  using power_int_increasing[of n m "2::rat"] by (cases "m < n") auto

lemma expo_unique:
  assumes "2 powi e \<le> \<bar>x\<bar>" "\<bar>x\<bar> < 2 powi (e + 1)"
  shows "expo x = e"
proof -
  have "x \<noteq> 0"
  proof
    assume "x = 0"
    with assms(1) have "(2::rat) powi e \<le> 0" by simp
    moreover have "(0::rat) < 2 powi e" by (rule zero_less_power_int) simp
    ultimately show False by linarith
  qed
  from expo_bounds[OF this] have b: "2 powi (expo x) \<le> \<bar>x\<bar>" "\<bar>x\<bar> < 2 powi (expo x + 1)" .
  have "(2::rat) powi e < 2 powi (expo x + 1)" using assms(1) b(2) by simp
  then have 1: "e < expo x + 1" by (rule pow2_less_cancel)
  have "(2::rat) powi (expo x) < 2 powi (e + 1)" using assms(2) b(1) by simp
  then have 2: "expo x < e + 1" by (rule pow2_less_cancel)
  from 1 2 show ?thesis by simp
qed

lemma rne_of_int [simp]: "rne (of_int k) = k"
  by (simp add: rne_def)

lemma rne_range: "\<lfloor>m\<rfloor> \<le> rne m \<and> rne m \<le> \<lfloor>m\<rfloor> + 1"
  by (simp add: rne_def Let_def)

lemma rne_mono:
  assumes "m \<le> m'"
  shows "rne m \<le> rne m'"
proof (cases "\<lfloor>m\<rfloor> = \<lfloor>m'\<rfloor>")
  case True
  have "m - of_int \<lfloor>m\<rfloor> \<le> m' - of_int \<lfloor>m'\<rfloor>" using assms True by simp
  then show ?thesis using True by (auto simp: rne_def Let_def)
next
  case False
  have "\<lfloor>m\<rfloor> \<le> \<lfloor>m'\<rfloor>" using assms by (rule floor_mono)
  with False have "\<lfloor>m\<rfloor> + 1 \<le> \<lfloor>m'\<rfloor>" by simp
  then show ?thesis using rne_range[of m] rne_range[of m'] by linarith
qed

lemma fl_ulp: "fl x = of_int (rne (x / ulp x)) * ulp x"
  by (simp add: fl_def ulp_def)

lemma ulp_pos: "0 < ulp x"
  unfolding ulp_def by (rule zero_less_power_int) simp

lemma pow2_split: "(2::rat) powi (e + k) = 2 powi e * 2 powi k"
  by (rule power_int_add) simp

lemma ulp_scale: "2 powi (expo x) = ulp x * 2 ^ 52" "2 powi (expo x + 1) = ulp x * 2 ^ 53"
proof -
  have "(2::rat) powi (expo x) = 2 powi ((expo x - 52) + 52)" by simp
  also have "\<dots> = 2 powi (expo x - 52) * 2 powi 52" by (rule pow2_split)
  finally show "2 powi (expo x) = ulp x * 2 ^ 52" by (simp add: ulp_def)
  have "expo x + 1 = (expo x - 52) + 53" by arith
  then have "(2::rat) powi (expo x + 1) = 2 powi ((expo x - 52) + 53)" by (simp only:)
  also have "\<dots> = 2 powi (expo x - 52) * 2 powi 53" by (rule pow2_split)
  finally show "2 powi (expo x + 1) = ulp x * 2 ^ 53" by (simp add: ulp_def)
qed

lemma scaled_pos:
  assumes "0 < x"
  shows "2 ^ 52 \<le> x / ulp x" "x / ulp x < 2 ^ 53"
proof -
  have nz: "x \<noteq> 0" using assms by simp
  from expo_bounds[OF nz] assms have "ulp x * 2 ^ 52 \<le> x" "x < ulp x * 2 ^ 53"
    by (simp_all add: ulp_scale)
  then show "2 ^ 52 \<le> x / ulp x" "x / ulp x < 2 ^ 53"
    using ulp_pos[of x] by (simp_all add: pos_le_divide_eq pos_divide_less_eq mult.commute)
qed

lemma expo_minus: "expo (- x) = expo x"
  by (simp add: expo_def)

lemma ulp_minus: "ulp (- x) = ulp x"
  by (simp add: ulp_def expo_minus)

lemma scaled_neg:
  assumes "x < 0"
  shows "x / ulp x \<le> - (2 ^ 52)" "- (2 ^ 53) < x / ulp x"
proof -
  have pos: "0 < - x" using assms by simp
  have "2 ^ 52 \<le> - (x / ulp x)" "- (x / ulp x) < 2 ^ 53"
    using scaled_pos[OF pos] by (simp_all only: ulp_minus minus_divide_left)
  then show "x / ulp x \<le> - (2 ^ 52)" "- (2 ^ 53) < x / ulp x" by linarith+
qed

lemma sig_pos:
  assumes "0 < x"
  shows "2 ^ 52 \<le> rne (x / ulp x)" "rne (x / ulp x) \<le> 2 ^ 53"
proof -
  have "rne (of_int (2 ^ 52)) \<le> rne (x / ulp x)"
    using scaled_pos(1)[OF assms] by (intro rne_mono) simp
  then show "2 ^ 52 \<le> rne (x / ulp x)" by (simp only: rne_of_int)
  have "rne (x / ulp x) \<le> rne (of_int (2 ^ 53))"
    using scaled_pos(2)[OF assms] by (intro rne_mono) simp
  then show "rne (x / ulp x) \<le> 2 ^ 53" by (simp only: rne_of_int)
qed

lemma sig_neg:
  assumes "x < 0"
  shows "rne (x / ulp x) \<le> - (2 ^ 52)" "- (2 ^ 53) \<le> rne (x / ulp x)"
proof -
  have "rne (x / ulp x) \<le> rne (of_int (- (2 ^ 52)))"
    using scaled_neg(1)[OF assms] by (intro rne_mono) simp
  then show "rne (x / ulp x) \<le> - (2 ^ 52)" by (simp only: rne_of_int)
  have "rne (of_int (- (2 ^ 53))) \<le> rne (x / ulp x)"
    using scaled_neg(2)[OF assms] by (intro rne_mono) simp
  then show "- (2 ^ 53) \<le> rne (x / ulp x)" by (simp only: rne_of_int)
qed

lemma fl_zero [simp]: "fl 0 = 0"
  by (simp add: fl_def rne_def)



lemma pow2_pos: "(0::rat) < 2 powi e"
  by (rule zero_less_power_int) simp







lemma fl_fix:
  assumes "x / ulp x = of_int k"
  shows "fl x = x"
proof -
  have "fl x = of_int k * ulp x" using assms by (simp add: fl_ulp)
  also have "\<dots> = x / ulp x * ulp x" using assms by simp
  also have "\<dots> = x" using ulp_pos[of x] by simp
  finally show ?thesis .
qed

lemma fl_form:
  assumes "y = of_int m * 2 powi j" "2 ^ 52 \<le> \<bar>m\<bar>" "\<bar>m\<bar> < 2 ^ 53"
  shows "fl y = y"
proof -
  have p: "(0::rat) < 2 powi j" by (rule pow2_pos)
  have ay: "\<bar>y\<bar> = of_int \<bar>m\<bar> * 2 powi j" using p by (simp add: assms(1) abs_mult)
  have "(of_int (2 ^ 52) :: rat) \<le> of_int \<bar>m\<bar>" using assms(2) by (simp only: of_int_le_iff)
  then have "(2::rat) ^ 52 * 2 powi j \<le> of_int \<bar>m\<bar> * 2 powi j" using p by (intro mult_right_mono) simp_all
  moreover have "(2::rat) powi (j + 52) = 2 powi j * 2 powi 52" by (rule pow2_split)
  ultimately have lo: "2 powi (j + 52) \<le> \<bar>y\<bar>" by (simp add: ay mult.commute)
  have "(of_int \<bar>m\<bar> :: rat) < of_int (2 ^ 53)" using assms(3) by (simp only: of_int_less_iff)
  then have "of_int \<bar>m\<bar> * 2 powi j < (2::rat) ^ 53 * 2 powi j" using p by (intro mult_strict_right_mono) simp_all
  moreover have "(2::rat) powi (j + 52 + 1) = 2 powi j * 2 powi 53"
  proof -
    have "j + 52 + 1 = j + 53" by arith
    then show ?thesis by (simp only: pow2_split)
  qed
  ultimately have hi: "\<bar>y\<bar> < 2 powi (j + 52 + 1)" by (simp add: ay mult.commute)
  have e: "expo y = j + 52" using lo hi by (rule expo_unique)
  have u: "ulp y = 2 powi j" by (simp add: ulp_def e)
  have "y / ulp y = of_int m * 2 powi j / 2 powi j" unfolding u by (simp only: assms(1))
  also have "\<dots> = of_int m" using p by simp
  finally show ?thesis by (rule fl_fix)
qed

lemma fl_idem [simp]: "fl (fl x) = fl x"
proof (cases "x = 0")
  case True
  then show ?thesis by simp
next
  case False
  define n where "n = rne (x / ulp x)"
  have f: "fl x = of_int n * 2 powi (expo x - 52)" by (simp add: fl_ulp n_def ulp_def)
  have r: "2 ^ 52 \<le> \<bar>n\<bar>" "\<bar>n\<bar> \<le> 2 ^ 53"
    using sig_pos[of x] sig_neg[of x] False unfolding n_def by (cases "0 < x"; simp)+
  show ?thesis
  proof (cases "\<bar>n\<bar> < 2 ^ 53")
    case True
    from fl_form[OF f r(1) True] show ?thesis .
  next
    case False
    with r(2) have "\<bar>n\<bar> = 2 ^ 53" by simp
    then obtain m where m: "n = m * 2" "\<bar>m\<bar> = 2 ^ 52" by (cases "0 \<le> n") (auto intro: that[of "2 ^ 52"] that[of "- (2 ^ 52)"])
    have "(2::rat) powi (expo x - 52 + 1) = 2 powi (expo x - 52) * 2 powi 1" by (rule pow2_split)
    then have "fl x = of_int m * 2 powi (expo x - 52 + 1)" by (simp add: f m(1))
    from fl_form[OF this] m(2) show ?thesis by simp
  qed
qed

lemma expo_of_int_nonneg:
  assumes "k \<noteq> 0"
  shows "0 \<le> expo (of_int k)"
proof -
  have nz: "(of_int k :: rat) \<noteq> 0" using assms by simp
  have "(1::rat) \<le> \<bar>of_int k\<bar>" using assms by (simp flip: of_int_abs add: of_int_le_iff[of 1, simplified] del: of_int_abs) 
  with expo_bounds(2)[OF nz] have "(2::rat) powi 0 < 2 powi (expo (of_int k) + 1)" by simp
  then have "0 < expo (of_int k) + 1" by (rule pow2_less_cancel)
  then show ?thesis by simp
qed

lemma fl_of_int:
  assumes "\<bar>k\<bar> \<le> 2 ^ 53"
  shows "fl (of_int k) = of_int k"
proof (cases "k = 0")
  case True
  then show ?thesis by simp
next
  case False
  define e where "e = expo (of_int k)"
  have nz: "(of_int k :: rat) \<noteq> 0" using False by simp
  have e0: "0 \<le> e" unfolding e_def using False by (rule expo_of_int_nonneg)
  have b: "2 powi e \<le> \<bar>rat_of_int k\<bar>" unfolding e_def using expo_bounds(1)[OF nz] .
  have "(of_int \<bar>k\<bar> :: rat) \<le> of_int (2 ^ 53)" using assms by (simp only: of_int_le_iff)
  then have k53: "\<bar>rat_of_int k\<bar> \<le> 2 powi 53" by simp
  show ?thesis
  proof (cases "e \<le> 52")
    case True
    have "rat_of_int k / ulp (of_int k) = of_int k * 2 powi (52 - e)"
      by (simp add: ulp_def e_def[symmetric] power_int_diff)
    also have "\<dots> = of_int k * 2 ^ nat (52 - e)" using True by (simp add: power_int_def)
    also have "\<dots> = of_int (k * 2 ^ nat (52 - e))" by simp
    finally show ?thesis by (rule fl_fix)
  next
    case False
    have "(2::rat) powi e < 2 powi 54" using b k53 power_int_strict_increasing[of 53 54 "2::rat"] by simp
    then have "e < 54" by (rule pow2_less_cancel)
    with False have e53: "e = 53" by simp
    with b k53 have "\<bar>rat_of_int k\<bar> = 2 ^ 53" by simp
    then have "(of_int \<bar>k\<bar> :: rat) = of_int (2 ^ 53)" by simp
    then have "\<bar>k\<bar> = 2 ^ 53" by (simp only: of_int_eq_iff)
    then obtain m where m: "k = m * 2" by (cases "0 \<le> k") (auto intro: that[of "2 ^ 52"] that[of "- (2 ^ 52)"])
    have u: "ulp (rat_of_int k) = 2" using e53 by (simp add: ulp_def e_def[symmetric])
    have "rat_of_int k / ulp (of_int k) = of_int m" unfolding u by (simp add: m)
    then show ?thesis by (rule fl_fix)
  qed
qed

lemma fl_fixed_large_int:
  assumes "fl x = x" "2 ^ 52 \<le> \<bar>x\<bar>"
  shows "x = of_int \<lfloor>x\<rfloor>"
proof -
  have nz: "x \<noteq> 0" using assms(2) by auto
  have "(2::rat) powi 52 < 2 powi (expo x + 1)" using expo_bounds(2)[OF nz] assms(2) by simp
  then have "52 < expo x + 1" by (rule pow2_less_cancel)
  then have e: "0 \<le> expo x - 52" by simp
  have "fl x = of_int (rne (x / ulp x)) * 2 ^ nat (expo x - 52)"
    using e by (simp add: fl_ulp ulp_def power_int_def)
  also have "\<dots> = of_int (rne (x / ulp x) * 2 ^ nat (expo x - 52))" by simp
  finally have "x = of_int (rne (x / ulp x) * 2 ^ nat (expo x - 52))" using assms(1) by simp
  then show ?thesis by (metis floor_of_int)
qed

lemma fl_floor:
  assumes "fl x = x"
  shows "fl (of_int \<lfloor>x\<rfloor>) = of_int \<lfloor>x\<rfloor>"
proof (cases "2 ^ 52 \<le> \<bar>x\<bar>")
  case True
  from fl_fixed_large_int[OF assms True] assms show ?thesis by simp
next
  case False
  then have "- (2 ^ 52) < x" "x < 2 ^ 52" by (simp_all add: abs_less_iff not_le)
  then have "- (2 ^ 52) \<le> \<lfloor>x\<rfloor>" "\<lfloor>x\<rfloor> < 2 ^ 52" by (simp_all add: le_floor_iff floor_less_iff)
  moreover have "(2::int) ^ 53 = 2 * 2 ^ 52" by simp
  ultimately have "\<bar>\<lfloor>x\<rfloor>\<bar> \<le> 2 ^ 53" by linarith
  then show ?thesis by (rule fl_of_int)
qed

lemma fl_round:
  assumes "fl x = x"
  shows "fl (of_int \<lfloor>x + 1 / 2\<rfloor>) = of_int \<lfloor>x + 1 / 2\<rfloor>"
proof (cases "2 ^ 52 \<le> \<bar>x\<bar>")
  case True
  from fl_fixed_large_int[OF assms True] obtain k where k: "x = of_int k" ..
  have "\<lfloor>x + 1 / 2\<rfloor> = k" unfolding k by linarith
  then show ?thesis using assms k by simp
next
  case False
  then have "- (2 ^ 52) < x" "x < 2 ^ 52" by (simp_all add: abs_less_iff not_le)
  then have "- (2 ^ 52) \<le> \<lfloor>x + 1 / 2\<rfloor>" "\<lfloor>x + 1 / 2\<rfloor> \<le> 2 ^ 52" by (simp_all add: le_floor_iff floor_le_iff) 
  moreover have "(2::int) ^ 53 = 2 * 2 ^ 52" by simp
  ultimately have "\<bar>\<lfloor>x + 1 / 2\<rfloor>\<bar> \<le> 2 ^ 53" by linarith
  then show ?thesis by (rule fl_of_int)
qed

lemma fl_max: "fl a = a \<Longrightarrow> fl b = b \<Longrightarrow> fl (max a b) = max a b"
  by (simp add: max_def)

subsection \<open>The type of doubles and its operations\<close>

text \<open>
  \<open>num x\<close> is the number written \<open>x\<close> in a program or a data file: the double nearest to
  \<open>x\<close>. \<^verbatim>\<open>Math.floor\<close> and \<^verbatim>\<open>Math.round\<close> (halves upwards) are exact: their results are
  doubles again. \<open>d_div\<close> is used only with a divisor that is not 0.
\<close>

typedef double = "{x :: rat. fl x = x}"
  morphisms val Abs_double
  by (rule exI[of _ 0]) simp

setup_lifting type_definition_double

lift_definition num :: "rat \<Rightarrow> double" is fl
  by simp

lift_definition d_sub :: "double \<Rightarrow> double \<Rightarrow> double" is "\<lambda>a b. fl (a - b)"
  by simp

lift_definition d_mul :: "double \<Rightarrow> double \<Rightarrow> double" is "\<lambda>a b. fl (a * b)"
  by simp

lift_definition d_div :: "double \<Rightarrow> double \<Rightarrow> double" is "\<lambda>a b. fl (a / b)"
  by simp

lift_definition d_floor :: "double \<Rightarrow> double" is "\<lambda>a. of_int \<lfloor>a\<rfloor>"
  by (rule fl_floor)

lift_definition d_round :: "double \<Rightarrow> double" is "\<lambda>a. of_int \<lfloor>a + 1 / 2\<rfloor>"
  by (rule fl_round)

lift_definition d_max :: "double \<Rightarrow> double \<Rightarrow> double" is max
  by (rule fl_max)

definition d_le :: "double \<Rightarrow> double \<Rightarrow> bool" where
  "d_le a b = (val a \<le> val b)"

definition d_less :: "double \<Rightarrow> double \<Rightarrow> bool" where
  "d_less a b = (val a < val b)"

instantiation double :: equal
begin

definition equal_double :: "double \<Rightarrow> double \<Rightarrow> bool" where
  "equal_double a b = (val a = val b)"

instance
  by standard (simp add: equal_double_def val_inject)

end

lemma fl_numeral [simp]: "\<bar>numeral n :: int\<bar> \<le> 2 ^ 53 \<Longrightarrow> fl (numeral n) = numeral n"
  using fl_of_int[of "numeral n"] by simp

lemma fl_neg_numeral [simp]: "\<bar>numeral n :: int\<bar> \<le> 2 ^ 53 \<Longrightarrow> fl (- numeral n) = - numeral n"
  using fl_of_int[of "- numeral n"] by simp

lemma fl_one [simp]: "fl 1 = 1"
  using fl_of_int[of 1] by simp

lemmas val_simps = num.rep_eq d_sub.rep_eq d_mul.rep_eq d_div.rep_eq d_floor.rep_eq
  d_round.rep_eq d_max.rep_eq d_le_def




lemma val_num_zero [simp]: "val (num 0) = 0"
  by (simp add: num.rep_eq)

subsection \<open>Numbers with \<^verbatim>\<open>NaN\<close>\<close>

text \<open>
  An operation with a \<^verbatim>\<open>NaN\<close> operand gives \<^verbatim>\<open>NaN\<close>; a comparison with \<^verbatim>\<open>NaN\<close>, also
  \<^verbatim>\<open>===\<close>, is false. A division by 0 gives an infinity or \<^verbatim>\<open>NaN\<close> in JavaScript; the
  source divides only after it has checked that the divisor is not 0, so \<open>js_div\<close> is never
  applied to a zero divisor, and the value it has there stands for no result of the source.
\<close>

datatype jsnum = Num double | NaN


fun js_mul :: "jsnum \<Rightarrow> jsnum \<Rightarrow> jsnum" where
  "js_mul (Num a) (Num b) = Num (d_mul a b)"
| "js_mul _ _ = NaN"


fun js_floor :: "jsnum \<Rightarrow> jsnum" where
  "js_floor (Num a) = Num (d_floor a)"
| "js_floor NaN = NaN"




fun number_of :: "jsnum \<Rightarrow> rat option" where
  "number_of (Num a) = Some (val a)"
| "number_of NaN = None"

section \<open>The program\<close>

subsection \<open>Data\<close>

record Frequency =
  times_val :: double
  period :: string

record AgeRange =
  start :: "double option"
  range_end :: "double option"
  flexible_end :: bool

record Activity =
  age_range :: AgeRange
  frequency :: Frequency

record Demographics =
  birth_year :: int
  birth_month :: int

record LifeExpectancy =
  years :: double

record Profile =
  demographics :: Demographics
  life_expectancy :: LifeExpectancy

text \<open>The two readings of \<^verbatim>\<open>new Date()\<close> the source takes; \<open>getMonth\<close> counts from 0.\<close>

record Date =
  getFullYear :: int
  getMonth :: int

text \<open>\<^verbatim>\<open>v || d\<close> on a number that may be absent: \<^verbatim>\<open>undefined\<close> and \<open>0\<close> give \<open>d\<close>.\<close>

definition js_or :: "double option \<Rightarrow> double \<Rightarrow> double" where
  "js_or v d = (case v of None \<Rightarrow> d | Some x \<Rightarrow> if val x = 0 then d else x)"

subsection \<open>Calculation utilities\<close>

text \<open>
  The value of a property lookup on the \<^verbatim>\<open>multipliers\<close> literal is a number, an object
  (the functions and the prototype that every object inherits from \<^verbatim>\<open>Object.prototype\<close>,
  under the names listed in \<open>objectPrototype\<close>), or \<^verbatim>\<open>undefined\<close>. An object is truthy, so
  \<^verbatim>\<open>||\<close> keeps it, and as a factor of \<^verbatim>\<open>*\<close> it converts to \<^verbatim>\<open>NaN\<close>.
\<close>

datatype jsval = Number double | Object | Undefined

definition objectPrototype :: "string list" where
  "objectPrototype =
     [''constructor'', ''__defineGetter__'', ''__defineSetter__'', ''hasOwnProperty'',
      ''__lookupGetter__'', ''__lookupSetter__'', ''isPrototypeOf'', ''propertyIsEnumerable'',
      ''toString'', ''valueOf'', ''__proto__'', ''toLocaleString'']"

definition multipliers :: "string \<Rightarrow> jsval" where
  "multipliers key =
     (case map_of [(''day'', 365), (''week'', 52), (''month'', 12), (''year'', 1 :: rat)] key of
        Some m \<Rightarrow> Number (num m)
      | None \<Rightarrow> if key \<in> set objectPrototype then Object else Undefined)"

definition js_or_val :: "jsval \<Rightarrow> double \<Rightarrow> jsval" where
  "js_or_val v d =
     (case v of
        Number x \<Rightarrow> if val x = 0 then Number d else Number x
      | Object \<Rightarrow> Object
      | Undefined \<Rightarrow> Number d)"

definition to_number :: "jsval \<Rightarrow> jsnum" where
  "to_number v = (case v of Number x \<Rightarrow> Num x | Object \<Rightarrow> NaN | Undefined \<Rightarrow> NaN)"

definition convertFrequencyToYearly :: "Frequency \<Rightarrow> jsnum" where
  "convertFrequencyToYearly f =
     js_mul (Num (times_val f)) (to_number (js_or_val (multipliers (period f)) (num 1)))"

definition getCurrentAge :: "Profile \<Rightarrow> Date \<Rightarrow> int" where
  "getCurrentAge profile now =
     (let currentYear = getFullYear now;
          currentMonth = getMonth now + 1;
          age = currentYear - birth_year (demographics profile)
      in if currentMonth < birth_month (demographics profile) then age - 1 else age)"

definition getYearsRemaining :: "Profile \<Rightarrow> Date \<Rightarrow> double" where
  "getYearsRemaining profile now =
     (let currentAge = num (of_int (getCurrentAge profile now))
      in d_max (num 0) (d_sub (years (life_expectancy profile)) currentAge))"

definition calculateRemainingOccurrences :: "Activity \<Rightarrow> Profile \<Rightarrow> Date \<Rightarrow> jsnum" where
  "calculateRemainingOccurrences activity profile now =
     (let currentAge = num (of_int (getCurrentAge profile now));
          lifeExpectancy = years (life_expectancy profile);
          activityEndAge =
            (if flexible_end (age_range activity) then lifeExpectancy
             else js_or (range_end (age_range activity)) lifeExpectancy);
          activityStartAge = d_max (js_or (start (age_range activity)) (num 0)) currentAge
      in if d_le activityEndAge currentAge then Num (num 0)
         else
           (let yearsRemaining = d_sub activityEndAge activityStartAge;
                yearlyFrequency = convertFrequencyToYearly (frequency activity)
            in js_floor (js_mul (Num yearsRemaining) yearlyFrequency)))"

definition calculateTotalOccurrences :: "Activity \<Rightarrow> Profile \<Rightarrow> jsnum" where
  "calculateTotalOccurrences activity profile =
     (let lifeExpectancy = years (life_expectancy profile);
          activityEndAge =
            (if flexible_end (age_range activity) then lifeExpectancy
             else js_or (range_end (age_range activity)) lifeExpectancy);
          activityStartAge = js_or (start (age_range activity)) (num 0);
          totalYears = d_max (num 0) (d_sub activityEndAge activityStartAge);
          yearlyFrequency = convertFrequencyToYearly (frequency activity)
      in js_floor (js_mul (Num totalYears) yearlyFrequency))"


subsection \<open>The namesakes in \<^verbatim>\<open>utils/dataLoader.js\<close>\<close>


definition dataLoader_getCurrentAge :: "Profile \<Rightarrow> Date \<Rightarrow> int" where
  "dataLoader_getCurrentAge profile now =
     (let currentYear = getFullYear now
      in currentYear - birth_year (demographics profile))"

definition dataLoader_getYearsRemaining :: "Profile \<Rightarrow> Date \<Rightarrow> double" where
  "dataLoader_getYearsRemaining profile now =
     (let currentAge = num (of_int (dataLoader_getCurrentAge profile now))
      in d_sub (years (life_expectancy profile)) currentAge)"

subsection \<open>The card state of \<^verbatim>\<open>Finitude.js\<close>\<close>

text \<open>
  \<^verbatim>\<open>a % b\<close> on integers: the remainder takes the sign of the dividend. Every use in the
  source is guarded by \<^verbatim>\<open>cardsWithCounts.length > 0\<close> or runs only while the timers
  are armed, so \<open>b = 0\<close> (where JavaScript gives \<^verbatim>\<open>NaN\<close>) is never evaluated.
\<close>

definition js_rem :: "int \<Rightarrow> int \<Rightarrow> int" where
  "js_rem a b = sgn a * (\<bar>a\<bar> mod \<bar>b\<bar>)"

text \<open>
  The state hooks of the component that the card rotation reads and writes.
  \<open>cardsLength\<close> is \<^verbatim>\<open>cardsWithCounts.length\<close>; \<open>timersArmed\<close> says whether the two
  intervals held by \<^verbatim>\<open>intervalRef\<close> and \<^verbatim>\<open>progressRef\<close> are live.
\<close>

record Sequencer =
  currentCard :: int
  isAutoPlaying :: bool
  progress :: int
  touchStart :: "double option"
  touchEnd :: "double option"
  cardsLength :: nat
  timersArmed :: bool

definition startAutoPlay :: "Sequencer \<Rightarrow> Sequencer" where
  "startAutoPlay s = s\<lparr>progress := 0, timersArmed := True\<rparr>"

definition stopAutoPlay :: "Sequencer \<Rightarrow> Sequencer" where
  "stopAutoPlay s = s\<lparr>progress := 0, timersArmed := False\<rparr>"

text \<open>The callback of the progress interval (every 50 ms).\<close>

definition progressTick :: "Sequencer \<Rightarrow> Sequencer" where
  "progressTick s = s\<lparr>progress := (if progress s \<ge> 100 then 0 else progress s + 1)\<rparr>"

text \<open>The callback of the card-rotation interval.\<close>

definition rotationTick :: "Sequencer \<Rightarrow> Sequencer" where
  "rotationTick s =
     s\<lparr>currentCard := js_rem (currentCard s + 1) (int (cardsLength s)), progress := 0\<rparr>"

definition nextCard :: "Sequencer \<Rightarrow> Sequencer" where
  "nextCard s =
     (if cardsLength s > 0
      then s\<lparr>currentCard := js_rem (currentCard s + 1) (int (cardsLength s)), progress := 0\<rparr>
      else s)"

definition prevCard :: "Sequencer \<Rightarrow> Sequencer" where
  "prevCard s =
     (if cardsLength s > 0
      then s\<lparr>currentCard :=
               js_rem (currentCard s - 1 + int (cardsLength s)) (int (cardsLength s)),
             progress := 0\<rparr>
      else s)"

definition handleTouchStart :: "double \<Rightarrow> Sequencer \<Rightarrow> Sequencer" where
  "handleTouchStart clientX s = s\<lparr>touchEnd := None, touchStart := Some clientX\<rparr>"

definition handleTouchMove :: "double \<Rightarrow> Sequencer \<Rightarrow> Sequencer" where
  "handleTouchMove clientX s = s\<lparr>touchEnd := Some clientX\<rparr>"

text \<open>\<^verbatim>\<open>!v\<close> on a coordinate that is \<^verbatim>\<open>null\<close> or a number: \<^verbatim>\<open>null\<close> and \<open>0\<close> are falsy.\<close>

definition js_not :: "double option \<Rightarrow> bool" where
  "js_not v = (case v of None \<Rightarrow> True | Some x \<Rightarrow> val x = 0)"

definition handleTouchEnd :: "Sequencer \<Rightarrow> Sequencer" where
  "handleTouchEnd s =
     (if js_not (touchStart s) \<or> js_not (touchEnd s) then s
      else
        (case (touchStart s, touchEnd s) of
           (Some a, Some b) \<Rightarrow>
             (let distance = d_sub a b;
                  isLeftSwipe = d_less (num 50) distance;
                  isRightSwipe = d_less distance (num (- 50))
              in if isLeftSwipe then nextCard s
                 else if isRightSwipe then prevCard s
                 else s)
         | _ \<Rightarrow> s))"

definition handleCardClick :: "Sequencer \<Rightarrow> Sequencer" where
  "handleCardClick s = s\<lparr>isAutoPlaying := \<not> isAutoPlaying s\<rparr>"

definition handleSettingsClick :: "Sequencer \<Rightarrow> Sequencer" where
  "handleSettingsClick s = s\<lparr>isAutoPlaying := False\<rparr>"

definition handleBackToMain :: "Sequencer \<Rightarrow> Sequencer" where
  "handleBackToMain s = s\<lparr>isAutoPlaying := True\<rparr>"

definition setActivities :: "nat \<Rightarrow> Sequencer \<Rightarrow> Sequencer" where
  "setActivities n s = s\<lparr>cardsLength := n\<rparr>"

text \<open>
  The effect with dependencies \<^verbatim>\<open>[isAutoPlaying, currentCard, cardsWithCounts.length,
  startAutoPlay]\<close>: when one of them has changed after an update, the cleanup of the
  previous run (\<open>stopAutoPlay\<close>) is followed by the body of the effect.
\<close>

definition autoPlayEffect :: "Sequencer \<Rightarrow> Sequencer" where
  "autoPlayEffect s =
     (if isAutoPlaying s \<and> cardsLength s > 0 then startAutoPlay s else stopAutoPlay s)"

definition deps :: "Sequencer \<Rightarrow> bool \<times> int \<times> nat" where
  "deps s = (isAutoPlaying s, currentCard s, cardsLength s)"

definition render :: "(Sequencer \<Rightarrow> Sequencer) \<Rightarrow> Sequencer \<Rightarrow> Sequencer" where
  "render f s =
     (let s' = f s
      in if deps s' = deps s then s' else autoPlayEffect (stopAutoPlay s'))"

text \<open>What can happen to the mounted component: timer callbacks and user input.\<close>

datatype Event =
  ProgressTick | RotationTick
  | NextCard | PrevCard
  | TouchStart double | TouchMove double | TouchEnd
  | CardClick | SettingsClick | BackToMain
  | SetActivities nat

fun step :: "Event \<Rightarrow> Sequencer \<Rightarrow> Sequencer" where
  "step ProgressTick s = (if timersArmed s then progressTick s else s)"
| "step RotationTick s = (if timersArmed s then render rotationTick s else s)"
| "step NextCard s = render nextCard s"
| "step PrevCard s = render prevCard s"
| "step (TouchStart x) s = render (handleTouchStart x) s"
| "step (TouchMove x) s = render (handleTouchMove x) s"
| "step TouchEnd s = render handleTouchEnd s"
| "step CardClick s = render handleCardClick s"
| "step SettingsClick s = render handleSettingsClick s"
| "step BackToMain s = render handleBackToMain s"
| "step (SetActivities n) s = render (setActivities n) s"

text \<open>The \<^verbatim>\<open>useState\<close> initial values, then the first run of the effect at mount.\<close>

definition initial :: Sequencer where
  "initial =
     autoPlayEffect
       \<lparr>currentCard = 0, isAutoPlaying = True, progress = 0, touchStart = None,
        touchEnd = None, cardsLength = 0, timersArmed = False\<rparr>"

definition run :: "Event list \<Rightarrow> Sequencer" where
  "run evs = foldl (\<lambda>s e. step e s) initial evs"

text \<open>The progress ratio is a percentage.\<close>

definition in_range :: "Sequencer \<Rightarrow> bool" where
  "in_range s = (0 \<le> progress s \<and> progress s \<le> 100)"

subsection \<open>The specification's reading of the remaining occurrences\<close>


section \<open>Properties of the calculation utilities\<close>

subsection \<open>Auxiliary facts\<close>









subsection \<open>Remaining occurrences\<close>




text \<open>
  Claim C2 (the result of \<open>calculateRemainingOccurrences\<close> is never negative) fails on the
  source: for an activity that starts at 80 with a flexible end, a life expectancy of 77 and
  a current age of 57, the years remaining are \<open>77 - 80\<close> and the result is \<open>-3\<close>.
  \<open>calculateTotalOccurrences\<close> clamps the same span with \<^verbatim>\<open>Math.max(0, ...)\<close> and gives 0.
\<close>

theorem remaining_negative_start_after_end:
  "calculateRemainingOccurrences
     \<lparr>age_range = \<lparr>start = Some (num 80), range_end = None, flexible_end = True\<rparr>,
      frequency = \<lparr>times_val = num 1, period = ''year''\<rparr>\<rparr>
     \<lparr>demographics = \<lparr>birth_year = 1969, birth_month = 1\<rparr>,
      life_expectancy = \<lparr>years = num 77\<rparr>\<rparr>
     \<lparr>getFullYear = 2026, getMonth = 10\<rparr> = Num (num (- 3))
   \<and> calculateTotalOccurrences
     \<lparr>age_range = \<lparr>start = Some (num 80), range_end = None, flexible_end = True\<rparr>,
      frequency = \<lparr>times_val = num 1, period = ''year''\<rparr>\<rparr>
     \<lparr>demographics = \<lparr>birth_year = 1969, birth_month = 1\<rparr>,
      life_expectancy = \<lparr>years = num 77\<rparr>\<rparr> = Num (num 0)"
  by code_simp



subsection \<open>Completion percentage\<close>




subsection \<open>Age and years remaining\<close>

lemma getYearsRemaining_clamped:
  "getYearsRemaining profile now
     = d_max (num 0)
         (d_sub (years (life_expectancy profile)) (num (of_int (getCurrentAge profile now))))
   \<and> d_le (num 0) (getYearsRemaining profile now)"
  by (simp add: getYearsRemaining_def val_simps)

text \<open>
  Claim C4 (the years remaining are \<open>max 0 (lifeExpectancy - currentAge)\<close>, never negative)
  holds for \<open>getYearsRemaining\<close> of the calculation utilities, as the lemma above shows, and
  fails for its namesake in \<^verbatim>\<open>utils/dataLoader.js\<close>, which returns the bare difference:
  born in 1940 with a life expectancy of 78.5, the year 2026 gives \<open>-7.5\<close>.
\<close>

theorem dataLoader_getYearsRemaining_negative:
  "dataLoader_getYearsRemaining
     \<lparr>demographics = \<lparr>birth_year = 1940, birth_month = 1\<rparr>,
      life_expectancy = \<lparr>years = num (157 / 2)\<rparr>\<rparr>
     \<lparr>getFullYear = 2026, getMonth = 10\<rparr> = num (- 15 / 2)
   \<and> getYearsRemaining
     \<lparr>demographics = \<lparr>birth_year = 1940, birth_month = 1\<rparr>,
      life_expectancy = \<lparr>years = num (157 / 2)\<rparr>\<rparr>
     \<lparr>getFullYear = 2026, getMonth = 10\<rparr> = num 0"
  by code_simp

lemma getCurrentAge_birthday:
  "getCurrentAge profile now =
     getFullYear now - birth_year (demographics profile)
       - (if getMonth now + 1 < birth_month (demographics profile) then 1 else 0)"
  by (simp add: getCurrentAge_def)

text \<open>
  Claim C5 (the current age is the difference of the years, less one exactly when the
  current month is before the birth month) holds for \<open>getCurrentAge\<close> of the calculation
  utilities, as the lemma above shows, and fails for its namesake in
  \<^verbatim>\<open>utils/dataLoader.js\<close>, which never looks at the month: born in December 1969, it gives
  57 in November 2026, where the birthday is still to come and the age is 56.
\<close>

theorem dataLoader_getCurrentAge_ignores_month:
  "dataLoader_getCurrentAge
     \<lparr>demographics = \<lparr>birth_year = 1969, birth_month = 12\<rparr>, life_expectancy = \<lparr>years = num 77\<rparr>\<rparr>
     \<lparr>getFullYear = 2026, getMonth = 10\<rparr> = 57
   \<and> getCurrentAge
     \<lparr>demographics = \<lparr>birth_year = 1969, birth_month = 12\<rparr>, life_expectancy = \<lparr>years = num 77\<rparr>\<rparr>
     \<lparr>getFullYear = 2026, getMonth = 10\<rparr> = 56"
  by (simp add: dataLoader_getCurrentAge_def getCurrentAge_def)

subsection \<open>Yearly rate\<close>




section \<open>Properties of the card state\<close>

subsection \<open>Cyclic advance\<close>

lemma js_rem_mod: "0 \<le> a \<Longrightarrow> js_rem a b = a mod \<bar>b\<bar>"
  by (cases "a = 0") (simp_all add: js_rem_def)

lemma nextCard_step:
  assumes "0 < cardsLength t" "0 \<le> currentCard t"
  shows "currentCard (nextCard t) = (currentCard t + 1) mod int (cardsLength t)"
    and "cardsLength (nextCard t) = cardsLength t"
  using assms by (simp_all add: nextCard_def js_rem_mod)

lemma prevCard_step:
  assumes "0 < cardsLength t" "0 \<le> currentCard t"
  shows "currentCard (prevCard t) = (currentCard t - 1) mod int (cardsLength t)"
    and "cardsLength (prevCard t) = cardsLength t"
proof -
  have "0 \<le> currentCard t - 1 + int (cardsLength t)" using assms by simp
  then have "js_rem (currentCard t - 1 + int (cardsLength t)) (int (cardsLength t))
               = (currentCard t - 1 + int (cardsLength t)) mod int (cardsLength t)"
    by (simp add: js_rem_mod)
  then show "currentCard (prevCard t) = (currentCard t - 1) mod int (cardsLength t)"
    using assms by (simp add: prevCard_def)
  show "cardsLength (prevCard t) = cardsLength t" by (simp add: prevCard_def)
qed

lemma nextCard_iter:
  assumes "0 < cardsLength s" "0 \<le> currentCard s"
  shows "currentCard ((nextCard ^^ Suc k) s) = (currentCard s + int (Suc k)) mod int (cardsLength s)
         \<and> cardsLength ((nextCard ^^ Suc k) s) = cardsLength s"
proof (induction k)
  case 0
  show ?case using nextCard_step[OF assms] by simp
next
  case (Suc k)
  define t where "t = (nextCard ^^ Suc k) s"
  have len: "cardsLength t = cardsLength s"
    and cur: "currentCard t = (currentCard s + int (Suc k)) mod int (cardsLength s)"
    using Suc by (simp_all add: t_def)
  have pos: "0 < cardsLength t" using len assms(1) by simp
  have nonneg: "0 \<le> currentCard t" using cur assms(1) by simp
  have "currentCard (nextCard t) = ((currentCard s + int (Suc k)) mod int (cardsLength s) + 1) mod int (cardsLength s)"
    using nextCard_step(1)[OF pos nonneg] len cur by simp
  also have "\<dots> = (currentCard s + int (Suc k) + 1) mod int (cardsLength s)"
    by (simp only: mod_add_left_eq)
  also have "\<dots> = (currentCard s + int (Suc (Suc k))) mod int (cardsLength s)"
    by (simp add: algebra_simps)
  finally have "currentCard (nextCard t) = (currentCard s + int (Suc (Suc k))) mod int (cardsLength s)" .
  moreover have "cardsLength (nextCard t) = cardsLength s"
    using nextCard_step(2)[OF pos nonneg] len by simp
  moreover have "(nextCard ^^ Suc (Suc k)) s = nextCard t" by (simp add: t_def)
  ultimately show ?case by simp
qed

lemma prevCard_iter:
  assumes "0 < cardsLength s" "0 \<le> currentCard s"
  shows "currentCard ((prevCard ^^ Suc k) s) = (currentCard s - int (Suc k)) mod int (cardsLength s)
         \<and> cardsLength ((prevCard ^^ Suc k) s) = cardsLength s"
proof (induction k)
  case 0
  show ?case using prevCard_step[OF assms] by simp
next
  case (Suc k)
  define t where "t = (prevCard ^^ Suc k) s"
  have len: "cardsLength t = cardsLength s"
    and cur: "currentCard t = (currentCard s - int (Suc k)) mod int (cardsLength s)"
    using Suc by (simp_all add: t_def)
  have pos: "0 < cardsLength t" using len assms(1) by simp
  have nonneg: "0 \<le> currentCard t" using cur assms(1) by simp
  have "currentCard (prevCard t) = ((currentCard s - int (Suc k)) mod int (cardsLength s) - 1) mod int (cardsLength s)"
    using prevCard_step(1)[OF pos nonneg] len cur by simp
  also have "\<dots> = (currentCard s - int (Suc k) - 1) mod int (cardsLength s)"
    by (simp only: mod_diff_left_eq)
  also have "\<dots> = (currentCard s - int (Suc (Suc k))) mod int (cardsLength s)"
    by (simp add: algebra_simps)
  finally have "currentCard (prevCard t) = (currentCard s - int (Suc (Suc k))) mod int (cardsLength s)" .
  moreover have "cardsLength (prevCard t) = cardsLength s"
    using prevCard_step(2)[OF pos nonneg] len by simp
  moreover have "(prevCard ^^ Suc (Suc k)) s = prevCard t" by (simp add: t_def)
  ultimately show ?case by simp
qed

text \<open>
  Claim C7: on a non-empty sequence of \<open>N\<close> cards, from every focus index \<open>0 \<le> i < N\<close>,
  \<open>nextCard\<close> moves the focus to \<open>(i + 1) mod N\<close> (one up, from the last card to card 0) and
  \<open>prevCard\<close> to \<open>(i - 1) mod N\<close> (one down, from card 0 to the last card); \<open>k\<close>
  applications move it by \<open>k\<close> modulo \<open>N\<close>, so \<open>N\<close> applications of either return it to
  \<open>i\<close>, and after any number of applications the index is between 0 and \<open>N - 1\<close>.
\<close>

theorem advance_cyclic:
  assumes "0 < cardsLength s" "0 \<le> currentCard s" "currentCard s < int (cardsLength s)"
  shows "currentCard (nextCard s) = (currentCard s + 1) mod int (cardsLength s)
     \<and> currentCard (prevCard s) = (currentCard s - 1) mod int (cardsLength s)
     \<and> currentCard (nextCard s)
         = (if currentCard s = int (cardsLength s) - 1 then 0 else currentCard s + 1)
     \<and> currentCard (prevCard s)
         = (if currentCard s = 0 then int (cardsLength s) - 1 else currentCard s - 1)
     \<and> (\<forall>k. currentCard ((nextCard ^^ k) s) = (currentCard s + int k) mod int (cardsLength s))
     \<and> (\<forall>k. currentCard ((prevCard ^^ k) s) = (currentCard s - int k) mod int (cardsLength s))
     \<and> currentCard ((nextCard ^^ cardsLength s) s) = currentCard s
     \<and> (\<forall>k. 0 \<le> currentCard ((nextCard ^^ k) s)
              \<and> currentCard ((nextCard ^^ k) s) \<le> int (cardsLength s) - 1)
     \<and> currentCard ((prevCard ^^ cardsLength s) s) = currentCard s
     \<and> (\<forall>k. 0 \<le> currentCard ((prevCard ^^ k) s)
              \<and> currentCard ((prevCard ^^ k) s) \<le> int (cardsLength s) - 1)"
proof -
  have pos: "0 < int (cardsLength s)" using assms(1) by simp
  have small: "currentCard s mod int (cardsLength s) = currentCard s" using assms by simp
  have n1: "currentCard (nextCard s) = (currentCard s + 1) mod int (cardsLength s)"
    using nextCard_step(1)[OF assms(1,2)] .
  have p1: "currentCard (prevCard s) = (currentCard s - 1) mod int (cardsLength s)"
    using prevCard_step(1)[OF assms(1,2)] .
  have n1': "currentCard (nextCard s)
         = (if currentCard s = int (cardsLength s) - 1 then 0 else currentCard s + 1)"
    unfolding n1 using assms by simp
  have p1': "currentCard (prevCard s)
         = (if currentCard s = 0 then int (cardsLength s) - 1 else currentCard s - 1)"
  proof (cases "currentCard s = 0")
    case True
    have "(- 1) mod int (cardsLength s) = int (cardsLength s) - 1"
      using pos by (simp add: zmod_minus1)
    then show ?thesis unfolding p1 using True by simp
  next
    case False
    then show ?thesis unfolding p1 using assms by simp
  qed
  have n: "currentCard ((nextCard ^^ k) s) = (currentCard s + int k) mod int (cardsLength s)" for k
  proof (cases k)
    case 0
    then show ?thesis using small by simp
  next
    case (Suc j)
    then show ?thesis using nextCard_iter[OF assms(1,2), of j] by simp
  qed
  have p: "currentCard ((prevCard ^^ k) s) = (currentCard s - int k) mod int (cardsLength s)" for k
  proof (cases k)
    case 0
    then show ?thesis using small by simp
  next
    case (Suc j)
    then show ?thesis using prevCard_iter[OF assms(1,2), of j] by simp
  qed
  have a: "currentCard ((nextCard ^^ cardsLength s) s) = currentCard s"
    unfolding n using small by simp
  have b: "currentCard ((prevCard ^^ cardsLength s) s) = currentCard s"
    unfolding p using small by simp
  have c: "0 \<le> currentCard ((nextCard ^^ k) s)
            \<and> currentCard ((nextCard ^^ k) s) \<le> int (cardsLength s) - 1" for k
    unfolding n
    using pos_mod_bound[OF pos, of "currentCard s + int k"]
          pos_mod_sign[OF pos, of "currentCard s + int k"] by simp
  have d: "0 \<le> currentCard ((prevCard ^^ k) s)
            \<and> currentCard ((prevCard ^^ k) s) \<le> int (cardsLength s) - 1" for k
    unfolding p
    using pos_mod_bound[OF pos, of "currentCard s - int k"]
          pos_mod_sign[OF pos, of "currentCard s - int k"] by simp
  from n1 p1 n1' p1' n p a b c d show ?thesis by blast
qed

theorem advance_cyclic_witness:
  "0 < cardsLength \<lparr>currentCard = 1, isAutoPlaying = True, progress = 7, touchStart = None,
        touchEnd = None, cardsLength = 3, timersArmed = True\<rparr>
   \<and> 0 \<le> currentCard \<lparr>currentCard = 1, isAutoPlaying = True, progress = 7, touchStart = None,
        touchEnd = None, cardsLength = 3, timersArmed = True\<rparr>
   \<and> currentCard \<lparr>currentCard = 1, isAutoPlaying = True, progress = 7, touchStart = None,
        touchEnd = None, cardsLength = 3, timersArmed = True\<rparr>
       < int (cardsLength \<lparr>currentCard = 1, isAutoPlaying = True, progress = 7, touchStart = None,
        touchEnd = None, cardsLength = 3, timersArmed = True\<rparr>)
   \<and> currentCard (nextCard \<lparr>currentCard = 1, isAutoPlaying = True, progress = 7, touchStart = None,
        touchEnd = None, cardsLength = 3, timersArmed = True\<rparr>) = 2
   \<and> currentCard (prevCard \<lparr>currentCard = 1, isAutoPlaying = True, progress = 7, touchStart = None,
        touchEnd = None, cardsLength = 3, timersArmed = True\<rparr>) = 0
   \<and> currentCard ((nextCard ^^ 3) \<lparr>currentCard = 1, isAutoPlaying = True, progress = 7, touchStart = None,
        touchEnd = None, cardsLength = 3, timersArmed = True\<rparr>) = 1
   \<and> currentCard ((prevCard ^^ 3) \<lparr>currentCard = 1, isAutoPlaying = True, progress = 7, touchStart = None,
        touchEnd = None, cardsLength = 3, timersArmed = True\<rparr>) = 1
   \<and> currentCard ((prevCard ^^ 2) \<lparr>currentCard = 1, isAutoPlaying = True, progress = 7, touchStart = None,
        touchEnd = None, cardsLength = 3, timersArmed = True\<rparr>) = 2"
proof -
  let ?s = "\<lparr>currentCard = 1, isAutoPlaying = True, progress = 7, touchStart = None,
        touchEnd = None, cardsLength = 3, timersArmed = True\<rparr>"
  have h: "0 < cardsLength ?s" "0 \<le> currentCard ?s" "currentCard ?s < int (cardsLength ?s)"
    by simp_all
  from advance_cyclic [OF h]
  have "currentCard (nextCard ?s) = (currentCard ?s + 1) mod int (cardsLength ?s)"
    and "currentCard (prevCard ?s) = (currentCard ?s - 1) mod int (cardsLength ?s)"
    and "currentCard ((nextCard ^^ 3) ?s) = (currentCard ?s + int 3) mod int (cardsLength ?s)"
    and "currentCard ((prevCard ^^ 3) ?s) = (currentCard ?s - int 3) mod int (cardsLength ?s)"
    and "currentCard ((prevCard ^^ 2) ?s) = (currentCard ?s - int 2) mod int (cardsLength ?s)"
    by blast+
  then show ?thesis by simp
qed

subsection \<open>Swipe gestures\<close>

lemma handleTouchEnd_swipe:
  "touchStart s = Some a \<Longrightarrow> touchEnd s = Some b \<Longrightarrow> val a \<noteq> 0 \<Longrightarrow> val b \<noteq> 0 \<Longrightarrow>
   handleTouchEnd s =
     (if d_less (num 50) (d_sub a b) then nextCard s
      else if d_less (d_sub a b) (num (- 50)) then prevCard s
      else s)"
  by (simp add: handleTouchEnd_def js_not_def)

text \<open>
  Claim C8 (a leftward swipe of more than 50 units advances to the next card) holds for
  gestures whose two coordinates are not 0, as the lemma above shows, and fails on the
  source when a coordinate is 0: \<^verbatim>\<open>if (!touchStart || !touchEnd) return\<close> takes the
  coordinate 0 for a missing one. With three cards and the focus on card 0, the swipe from
  60 to 0 leaves the focus on card 0; the swipe from 61 to 1, of the same length, moves it
  to card 1.
\<close>

theorem swipe_ending_at_zero_ignored:
  "currentCard (run [SetActivities 3, TouchStart (num 60), TouchMove (num 0), TouchEnd]) = 0
   \<and> currentCard (run [SetActivities 3, TouchStart (num 61), TouchMove (num 1), TouchEnd]) = 1"
  by (simp add: run_def initial_def render_def deps_def autoPlayEffect_def startAutoPlay_def
      stopAutoPlay_def setActivities_def handleTouchStart_def handleTouchMove_def
      handleTouchEnd_def js_not_def nextCard_def js_rem_def d_less_def val_simps)

subsection \<open>Progress ratio\<close>

lemma render_in_range: "in_range (f s) \<Longrightarrow> in_range (render f s)"
  by (simp add: render_def Let_def in_range_def autoPlayEffect_def startAutoPlay_def stopAutoPlay_def)

lemma nextCard_in_range: "in_range s \<Longrightarrow> in_range (nextCard s)"
  by (simp add: nextCard_def in_range_def)

lemma prevCard_in_range: "in_range s \<Longrightarrow> in_range (prevCard s)"
  by (simp add: prevCard_def in_range_def)

lemma handleTouchEnd_cases: "handleTouchEnd s = s \<or> handleTouchEnd s = nextCard s \<or> handleTouchEnd s = prevCard s"
  by (simp add: handleTouchEnd_def Let_def split: option.splits)

lemma handleTouchEnd_in_range: "in_range s \<Longrightarrow> in_range (handleTouchEnd s)"
  using handleTouchEnd_cases[of s] nextCard_in_range[of s] prevCard_in_range[of s] by auto

lemma progressTick_in_range: "in_range s \<Longrightarrow> in_range (progressTick s)"
  by (simp add: progressTick_def in_range_def)

lemma step_in_range: "in_range s \<Longrightarrow> in_range (step e s)"
proof (cases e)
  case ProgressTick
  assume "in_range s"
  then show ?thesis using ProgressTick by (simp add: progressTick_in_range)
next
  case RotationTick
  assume "in_range s"
  moreover have "in_range (rotationTick s)" by (simp add: rotationTick_def in_range_def)
  ultimately show ?thesis using RotationTick by (simp add: render_in_range)
next
  case NextCard
  assume "in_range s"
  then show ?thesis using NextCard by (simp add: render_in_range nextCard_in_range)
next
  case PrevCard
  assume "in_range s"
  then show ?thesis using PrevCard by (simp add: render_in_range prevCard_in_range)
next
  case (TouchStart x)
  assume "in_range s"
  then have "in_range (handleTouchStart x s)" by (simp add: handleTouchStart_def in_range_def)
  then show ?thesis using TouchStart by (simp add: render_in_range)
next
  case (TouchMove x)
  assume "in_range s"
  then have "in_range (handleTouchMove x s)" by (simp add: handleTouchMove_def in_range_def)
  then show ?thesis using TouchMove by (simp add: render_in_range)
next
  case TouchEnd
  assume "in_range s"
  then show ?thesis using TouchEnd by (simp add: render_in_range handleTouchEnd_in_range)
next
  case CardClick
  assume "in_range s"
  then have "in_range (handleCardClick s)" by (simp add: handleCardClick_def in_range_def)
  then show ?thesis using CardClick by (simp add: render_in_range)
next
  case SettingsClick
  assume "in_range s"
  then have "in_range (handleSettingsClick s)" by (simp add: handleSettingsClick_def in_range_def)
  then show ?thesis using SettingsClick by (simp add: render_in_range)
next
  case BackToMain
  assume "in_range s"
  then have "in_range (handleBackToMain s)" by (simp add: handleBackToMain_def in_range_def)
  then show ?thesis using BackToMain by (simp add: render_in_range)
next
  case (SetActivities n)
  assume "in_range s"
  then have "in_range (setActivities n s)" by (simp add: setActivities_def in_range_def)
  then show ?thesis using SetActivities by (simp add: render_in_range)
qed

lemma run_snoc: "run (evs @ [e]) = step e (run evs)"
  by (simp add: run_def)

lemma run_in_range: "in_range (run evs)"
proof (induction evs rule: rev_induct)
  case Nil
  show ?case by (simp add: run_def initial_def autoPlayEffect_def stopAutoPlay_def in_range_def)
next
  case (snoc e evs)
  then show ?case by (simp add: run_snoc step_in_range)
qed

lemma render_progress_reset: "progress (f s) = 0 \<Longrightarrow> progress (render f s) = 0"
  by (simp add: render_def Let_def autoPlayEffect_def startAutoPlay_def stopAutoPlay_def)

lemma render_deps_changed: "deps (f s) \<noteq> deps s \<Longrightarrow> progress (render f s) = 0"
  by (simp add: render_def Let_def autoPlayEffect_def startAutoPlay_def stopAutoPlay_def)

text \<open>
  Claim C9: after every sequence of events the progress ratio is between 0 and 100. It is 0
  at the start; a tick of the progress timer adds 1, or returns to 0 from 100; the rotation
  timer, a manual advance on a non-empty sequence, and a pause (a click on the card or on
  the settings button while playing) set it to 0.
\<close>

theorem progress_ratio_range:
  "0 \<le> progress (run evs) \<and> progress (run evs) \<le> 100
   \<and> progress (run []) = 0
   \<and> (timersArmed (run evs) \<longrightarrow>
        progress (step ProgressTick (run evs))
          = (if progress (run evs) = 100 then 0 else progress (run evs) + 1))
   \<and> (timersArmed (run evs) \<longrightarrow> progress (step RotationTick (run evs)) = 0)
   \<and> (0 < cardsLength (run evs) \<longrightarrow>
        progress (step NextCard (run evs)) = 0 \<and> progress (step PrevCard (run evs)) = 0)
   \<and> (isAutoPlaying (run evs) \<longrightarrow>
        progress (step CardClick (run evs)) = 0 \<and> progress (step SettingsClick (run evs)) = 0)"
proof -
  have r: "0 \<le> progress (run evs) \<and> progress (run evs) \<le> 100"
    using run_in_range[of evs] by (simp add: in_range_def)
  have i: "progress (run []) = 0"
    by (simp add: run_def initial_def autoPlayEffect_def stopAutoPlay_def)
  have t: "timersArmed (run evs) \<longrightarrow>
        progress (step ProgressTick (run evs))
          = (if progress (run evs) = 100 then 0 else progress (run evs) + 1)"
    using r by (simp add: progressTick_def)
  have ro: "timersArmed (run evs) \<longrightarrow> progress (step RotationTick (run evs)) = 0"
    by (simp add: render_progress_reset rotationTick_def)
  have n: "0 < cardsLength (run evs) \<longrightarrow>
        progress (step NextCard (run evs)) = 0 \<and> progress (step PrevCard (run evs)) = 0"
    by (simp add: render_progress_reset nextCard_def prevCard_def)
  have c: "isAutoPlaying (run evs) \<longrightarrow>
        progress (step CardClick (run evs)) = 0 \<and> progress (step SettingsClick (run evs)) = 0"
    by (simp add: render_deps_changed deps_def handleCardClick_def handleSettingsClick_def)
  from r i t ro n c show ?thesis by blast
qed

theorem progress_ratio_range_witness:
  "timersArmed (run [SetActivities 3, ProgressTick, ProgressTick])
   \<and> 0 < cardsLength (run [SetActivities 3, ProgressTick, ProgressTick])
   \<and> isAutoPlaying (run [SetActivities 3, ProgressTick, ProgressTick])
   \<and> progress (run [SetActivities 3, ProgressTick, ProgressTick]) = 2
   \<and> progress (step ProgressTick (run [SetActivities 3, ProgressTick, ProgressTick])) = 3
   \<and> progress (step NextCard (run [SetActivities 3, ProgressTick, ProgressTick])) = 0
   \<and> progress (step CardClick (run [SetActivities 3, ProgressTick, ProgressTick])) = 0"
proof -
  have s: "run [SetActivities 3, ProgressTick, ProgressTick]
         = \<lparr>currentCard = 0, isAutoPlaying = True, progress = 2, touchStart = None,
            touchEnd = None, cardsLength = 3, timersArmed = True\<rparr>"
    by (simp add: run_def initial_def render_def deps_def autoPlayEffect_def startAutoPlay_def
        stopAutoPlay_def setActivities_def progressTick_def)
  show ?thesis
    using progress_ratio_range [of "[SetActivities 3, ProgressTick, ProgressTick]"]
    unfolding s by simp
qed

end
